theory Spec2Isabelle
  imports Complex_Main "HOL-Library.List_Lexorder" "HOL-Library.Char_ord"
begin

section \<open>Parameter trees and the object store\<close>

text \<open>
  Modelled from the spec: the parameter tree class (\<^verbatim>\<open>sc_library.parameters\<close>) is imported
  by \<^verbatim>\<open>qtParametersBox.py\<close> but is not among the sources. The spec describes it as
  "a mapping from path to Parameter" that offers "get/set/deep-copy by path". A tree is
  therefore a finite map from dotted paths to values; \<^verbatim>\<open>get\<close> reads a path, \<^verbatim>\<open>setv\<close>
  writes one. Values are compared with Python's \<^verbatim>\<open>!=\<close>, which is
  disequality on the values of one parameter (booleans, integers, strings); the type of
  values is left open.

  Python variables hold references to tree objects, and \<^verbatim>\<open>copy.deepcopy\<close> makes a new
  object. The store maps references to trees; \<open>next_free\<close> is the first reference that
  has not been handed out.
\<close>

type_synonym 'v tree = "string \<rightharpoonup> 'v"

type_synonym ref = nat

record 'v heap =
  objs :: "ref \<Rightarrow> 'v tree"
  next_free :: ref

definition get :: "'v heap \<Rightarrow> ref \<Rightarrow> string \<Rightarrow> 'v option" where
  "get h r p = objs h r p"

definition setv :: "'v heap \<Rightarrow> ref \<Rightarrow> string \<Rightarrow> 'v \<Rightarrow> 'v heap" where
  "setv h r p v = h\<lparr>objs := (objs h)(r := (objs h r)(p \<mapsto> v))\<rparr>"

definition deepcopy :: "'v heap \<Rightarrow> ref \<Rightarrow> 'v heap \<times> ref" where
  "deepcopy h r =
     (h\<lparr>objs := (objs h)(next_free h := objs h r), next_free := Suc (next_free h)\<rparr>,
      next_free h)"

section \<open>The parameters editor (qtParametersBox.py)\<close>

subsection \<open>ParametersTableWidget\<close>

text \<open>
  The base class of the editor widgets keeps the flag \<^verbatim>\<open>am_changed\<close> and colours the
  name label. \<^verbatim>\<open>setChanged\<close> returns one of the strings "modified", "reverted",
  "nochange".
\<close>

datatype label_style = Unstyled | Black | Red

record table_widget =
  am_changed :: bool
  name_label :: label_style

datatype change_result = Modified | Reverted | NoChange

definition ParametersTableWidget_init :: table_widget where
  "ParametersTableWidget_init = \<lparr>am_changed = False, name_label = Unstyled\<rparr>"

definition resetChanged :: "table_widget \<Rightarrow> table_widget" where
  "resetChanged w = w\<lparr>am_changed := False, name_label := Black\<rparr>"

definition setChanged :: "table_widget \<Rightarrow> bool \<Rightarrow> table_widget \<times> change_result" where
  "setChanged w changed =
     (if changed \<noteq> am_changed w then
        (if changed then (w\<lparr>am_changed := changed, name_label := Red\<rparr>, Modified)
         else (w\<lparr>am_changed := changed, name_label := Black\<rparr>, Reverted))
      else (w, NoChange))"

subsection \<open>ParametersEditor\<close>

text \<open>
  The dialog: the dictionary of editor widgets indexed by parameter name, the counter
  \<^verbatim>\<open>n_changed\<close>, references to the original tree and to the edited copy, the enabled
  state of the update button, and the number of \<^verbatim>\<open>updateClicked\<close> signals emitted so far.
\<close>

record editor =
  editor_widgets :: "string \<rightharpoonup> table_widget"
  n_changed :: int
  original_parameters :: ref
  parameters :: ref
  updateButton_enabled :: bool
  updateClicked :: nat

definition enableUpdateButton :: "bool \<Rightarrow> editor \<Rightarrow> editor" where
  "enableUpdateButton state e =
     (if state then e\<lparr>updateButton_enabled := True\<rparr>
      else e\<lparr>updateButton_enabled := False\<rparr>)"

definition updateDisplay :: "editor \<Rightarrow> editor" where
  "updateDisplay e = enableUpdateButton (n_changed e \<noteq> 0) e"

definition getParameters :: "editor \<Rightarrow> ref" where
  "getParameters e = original_parameters e"

text \<open>
  The constructor keeps the tree it is given as the original, deep-copies it into the
  edited tree and builds one widget per mutable leaf parameter. Which parameters are
  mutable leaves is decided by the tree class, so the list \<open>ws\<close> of their full names
  (the keys of \<^verbatim>\<open>editor_widgets\<close>) is a parameter. The update button is a fresh Qt
  button (enabled) until \<^verbatim>\<open>updateDisplay\<close> sets it.
\<close>

definition ParametersEditor_init :: "'v heap \<Rightarrow> ref \<Rightarrow> string list \<Rightarrow> 'v heap \<times> editor" where
  "ParametersEditor_init h params ws =
     (let (h', snapshot) = deepcopy h params
      in (h', updateDisplay
            \<lparr>editor_widgets = map_of (map (\<lambda>p. (p, ParametersTableWidget_init)) ws),
             n_changed = 0,
             original_parameters = params,
             parameters = snapshot,
             updateButton_enabled = True,
             updateClicked = 0\<rparr>))"

text \<open>
  A handler either returns normally or raises \<^verbatim>\<open>KeyError\<close>; both leave a state behind.
  \<^verbatim>\<open>handleParameterChanged\<close> writes the edited tree first, then looks the widget up
  (\<^verbatim>\<open>KeyError\<close> when there is none), then compares the edited and the original value.
\<close>

datatype 's result = Ok 's | KeyError 's

definition handleParameterChanged ::
    "string \<Rightarrow> 'v \<Rightarrow> 'v heap \<times> editor \<Rightarrow> ('v heap \<times> editor) result" where
  "handleParameterChanged pname pvalue s =
     (let (h, e) = s;
          h1 = setv h (parameters e) pname pvalue
      in case editor_widgets e pname of
           None \<Rightarrow> KeyError (h1, e)
         | Some w \<Rightarrow>
             let (w', is_modified) =
                   setChanged w (get h1 (parameters e) pname \<noteq> get h1 (original_parameters e) pname);
                 e1 = e\<lparr>editor_widgets := (editor_widgets e)(pname \<mapsto> w')\<rparr>;
                 e2 = (case is_modified of
                         Modified \<Rightarrow> e1\<lparr>n_changed := n_changed e1 + 1\<rparr>
                       | Reverted \<Rightarrow> e1\<lparr>n_changed := n_changed e1 - 1\<rparr>
                       | NoChange \<Rightarrow> e1)
             in Ok (h1, updateDisplay e2))"

definition handleUpdate :: "'v heap \<times> editor \<Rightarrow> 'v heap \<times> editor" where
  "handleUpdate s =
     (let (h, e) = s;
          e1 = e\<lparr>editor_widgets := (\<lambda>p. map_option resetChanged (editor_widgets e p))\<rparr>;
          (h', copy) = deepcopy h (parameters e1);
          e2 = e1\<lparr>original_parameters := copy\<rparr>;
          e3 = e2\<lparr>n_changed := 0\<rparr>
      in (h', e3\<lparr>updateClicked := updateClicked e3 + 1\<rparr>))"

text \<open>
  The events the dialog handles, and a run of the dialog over a list of them. A run stops
  at the first handler that raises.
\<close>

datatype 'v event = ParameterChanged string 'v | UpdateButtonClicked

fun run :: "'v event list \<Rightarrow> 'v heap \<times> editor \<Rightarrow> ('v heap \<times> editor) result" where
  "run [] s = Ok s"
| "run (ParameterChanged pname pvalue # evs) s =
     (case handleParameterChanged pname pvalue s of
        Ok s' \<Rightarrow> run evs s'
      | KeyError s' \<Rightarrow> KeyError s')"
| "run (UpdateButtonClicked # evs) s = run evs (handleUpdate s)"

text \<open>A change event comes from an editor widget, which sends its own name.\<close>

fun from_widget :: "string list \<Rightarrow> 'v event \<Rightarrow> bool" where
  "from_widget ws (ParameterChanged pname pvalue) = (pname \<in> set ws)"
| "from_widget ws UpdateButtonClicked = True"

text \<open>The paths at which the edited tree differs from the original tree.\<close>

definition differing :: "'v heap \<times> editor \<Rightarrow> string set" where
  "differing s =
     (let (h, e) = s in {p. get h (parameters e) p \<noteq> get h (original_parameters e) p})"

text \<open>
  The invariant of the dialog: the two trees are distinct allocated objects, a widget's
  flag says whether its path differs, paths without a widget do not differ, and the
  counter counts the flagged widgets.
\<close>

definition flagged :: "editor \<Rightarrow> string set" where
  "flagged e = {p. \<exists>w. editor_widgets e p = Some w \<and> am_changed w}"

definition editor_inv :: "'v heap \<times> editor \<Rightarrow> bool" where
  "editor_inv s =
     (let (h, e) = s in
        original_parameters e < next_free h \<and>
        parameters e < next_free h \<and>
        original_parameters e \<noteq> parameters e \<and>
        finite (dom (editor_widgets e)) \<and>
        differing (h, e) = flagged e \<and>
        n_changed e = int (card (flagged e)))"

text \<open>
  The value of the comparison in \<^verbatim>\<open>handleParameterChanged\<close>: after the write the edited
  tree holds \<open>v\<close> at \<open>p\<close>, and the original tree holds its own value there (or \<open>v\<close> too,
  were the two names to refer to one object).
\<close>

definition changed_after :: "'v heap \<times> editor \<Rightarrow> string \<Rightarrow> 'v \<Rightarrow> bool" where
  "changed_after s p v =
     (let (h, e) = s
      in Some v \<noteq> (if original_parameters e = parameters e then Some v
                    else get h (original_parameters e) p))"

text \<open>The state a handler leaves behind, however it ended.\<close>

fun state_of :: "'s result \<Rightarrow> 's" where
  "state_of (Ok s) = s"
| "state_of (KeyError s) = s"

text \<open>
  A small store for the examples: one tree at reference 0 with the two parameters
  \<^verbatim>\<open>.x\<close> and \<^verbatim>\<open>.y\<close>.
\<close>

definition heap0 :: "int heap" where
  "heap0 = \<lparr>objs = (\<lambda>r. Map.empty)(0 := [''.x'' \<mapsto> 1, ''.y'' \<mapsto> 5]), next_free = 1\<rparr>"

text \<open>
  What a run without commits must preserve: the editor still returns the tree \<open>params\<close>
  it was given, the edited tree is another object, and the contents of \<open>params\<close> are
  those of the store \<open>h0\<close> at construction.
\<close>

definition untouched :: "'v heap \<Rightarrow> ref \<Rightarrow> 'v heap \<times> editor \<Rightarrow> bool" where
  "untouched h0 params s =
     (let (h, e) = s in
        getParameters e = params \<and> parameters e \<noteq> params \<and>
        (\<forall>p. get h params p = get h0 params p))"

section \<open>Path names (os.path)\<close>

text \<open>
  \<^verbatim>\<open>os.path.basename\<close> and \<^verbatim>\<open>os.path.splitext\<close> belong to Python's standard library, not to
  the repository; they are written out here as \<^verbatim>\<open>posixpath\<close> defines them, with \<^verbatim>\<open>/\<close> as
  the separator (the separator Qt's \<^verbatim>\<open>toLocalFile\<close> uses on every platform). \<open>rfind\<close> is the
  index of the last occurrence of a character, or -1. The extension starts at the last
  dot of the last path component, unless only dots precede it there.
\<close>

definition rfind :: "char \<Rightarrow> string \<Rightarrow> int" where
  "rfind c p =
     (if c \<in> set p then int (length p) - 1 - int (length (takeWhile (\<lambda>x. x \<noteq> c) (rev p)))
      else - 1)"

definition basename :: "string \<Rightarrow> string" where
  "basename p = drop (nat (rfind (CHR ''/'') p + 1)) p"

definition splitext :: "string \<Rightarrow> string \<times> string" where
  "splitext p =
     (let sepIndex = rfind (CHR ''/'') p;
          dotIndex = rfind (CHR ''.'') p
      in if dotIndex > sepIndex \<and>
            list_ex (\<lambda>c. c \<noteq> CHR ''.'')
              (take (nat (dotIndex - (sepIndex + 1))) (drop (nat (sepIndex + 1)) p))
         then (take (nat dotIndex) p, drop (nat dotIndex) p)
         else (p, []))"

definition getFileName :: "string \<Rightarrow> string" where
  "getFileName path = fst (splitext (basename path))"

section \<open>The selector list (qtParametersBox.py)\<close>

subsection \<open>ParametersRadioButton\<close>

text \<open>
  A radio button with its tree. \<open>button_id\<close> stands for the identity of the Python
  object (buttons are compared with \<^verbatim>\<open>==\<close> and \<^verbatim>\<open>!=\<close>, which is identity for Qt
  objects); \<open>checked\<close> is Qt's checked state. The text of the button is
  \<^verbatim>\<open>getFileName(parameters.get("parameters_file"))\<close>; the value of that parameter is
  passed to the constructor as \<open>parameters_file\<close>.
\<close>

record radio_button =
  button_id :: nat
  button_text :: string
  checked :: bool
  rb_changed :: bool
  delete_desired :: bool
  editor_dialog :: "editor option"
  rb_parameters :: ref

definition ParametersRadioButton_init :: "nat \<Rightarrow> ref \<Rightarrow> string \<Rightarrow> radio_button" where
  "ParametersRadioButton_init ident params parameters_file =
     \<lparr>button_id = ident,
      button_text = getFileName parameters_file,
      checked = False,
      rb_changed = False,
      delete_desired = False,
      editor_dialog = None,
      rb_parameters = params\<rparr>"

definition enableEditor :: "radio_button \<Rightarrow> radio_button" where
  "enableEditor btn =
     (case editor_dialog btn of
        None \<Rightarrow> btn
      | Some e \<Rightarrow> btn\<lparr>editor_dialog := Some (enableUpdateButton (checked btn) e)\<rparr>)"

definition handleEdit :: "string list \<Rightarrow> 'v heap \<times> radio_button \<Rightarrow> 'v heap \<times> radio_button" where
  "handleEdit ws s =
     (let (h, btn) = s
      in case editor_dialog btn of
           None \<Rightarrow>
             (let (h', e) = ParametersEditor_init h (rb_parameters btn) ws
              in (h', btn\<lparr>editor_dialog := Some e\<rparr>))
         | Some e \<Rightarrow> (h, btn))"

subsection \<open>QParametersBox\<close>

text \<open>
  \<^verbatim>\<open>current_parameters\<close> starts as \<^verbatim>\<open>None\<close> and \<^verbatim>\<open>current_button\<close> as \<^verbatim>\<open>False\<close>, which
  is no button: both are options here. \<open>settings_toggled\<close> counts the emissions of the
  signal, and \<open>next_id\<close> is the identity the next button object gets.
\<close>

record box =
  current_parameters :: "ref option"
  current_button :: "nat option"
  radio_buttons :: "radio_button list"
  settings_toggled :: nat
  next_id :: nat

definition QParametersBox_init :: box where
  "QParametersBox_init =
     \<lparr>current_parameters = None, current_button = None, radio_buttons = [],
      settings_toggled = 0, next_id = 0\<rparr>"

text \<open>
  The body of the loop of \<^verbatim>\<open>toggleParameters\<close>, for one button: \<^verbatim>\<open>enableEditor\<close>, then
  the test on \<^verbatim>\<open>isChecked()\<close> and on the identity of the current button. The triple is
  (\<^verbatim>\<open>current_button\<close>, \<^verbatim>\<open>current_parameters\<close>, emissions of \<^verbatim>\<open>settings_toggled\<close>).
  The loop runs the body over the buttons in list order.
\<close>

type_synonym selection = "nat option \<times> ref option \<times> nat"

definition toggle_body :: "radio_button \<Rightarrow> selection \<Rightarrow> radio_button \<times> selection" where
  "toggle_body button st =
     (let (cb, cp, n) = st;
          button' = enableEditor button
      in if checked button' \<and> Some (button_id button') \<noteq> cb
         then (button', (Some (button_id button'), Some (rb_parameters button'), n + 1))
         else (button', (cb, cp, n)))"

fun toggle_loop :: "radio_button list \<Rightarrow> selection \<Rightarrow> radio_button list \<times> selection" where
  "toggle_loop [] st = ([], st)"
| "toggle_loop (button # rest) st =
     (let (button', st') = toggle_body button st;
          (rest', st'') = toggle_loop rest st'
      in (button' # rest', st''))"

definition toggleParameters :: "box \<Rightarrow> box" where
  "toggleParameters b =
     (let (buttons, cb, cp, n) =
            toggle_loop (radio_buttons b) (current_button b, current_parameters b, settings_toggled b)
      in b\<lparr>radio_buttons := buttons, current_button := cb, current_parameters := cp,
            settings_toggled := n\<rparr>)"

text \<open>
  A click on the button at position \<open>i\<close>. What a click does to the checked states is Qt's
  part, not the repository's; it is written out here after \<^verbatim>\<open>QAbstractButton\<close> for
  auto-exclusive buttons that share a parent and have no button group, which is what the
  radio buttons in the box are.
  \<^item> \<^verbatim>\<open>queryCheckedButton\<close>, asked by button \<open>i\<close>: none when the button is alone in the list;
    otherwise the first other button that is checked, and else the button itself when it
    is checked.
  \<^item> \<^verbatim>\<open>setChecked\<close>: nothing to do when the state is already the wanted one; a button that
    is the answer of its own \<^verbatim>\<open>queryCheckedButton\<close> cannot be unchecked; otherwise the state
    is set, and a button that has become checked unchecks the answer of
    \<^verbatim>\<open>queryCheckedButton\<close> (when that is another button).
  \<^item> \<^verbatim>\<open>nextCheckState\<close>, which a click runs: \<^verbatim>\<open>setChecked\<close> with the opposite of the current
    state. So a click checks an unchecked button and unchecks the one that was checked;
    a click on the checked button leaves it checked when there are other buttons, and
    unchecks it when it is the only button.
  Qt then emits \<^verbatim>\<open>clicked\<close>, which is connected to \<^verbatim>\<open>toggleParameters\<close>. There is no button to
  click at a position outside the list.
\<close>

definition other_checked :: "nat \<Rightarrow> radio_button list \<Rightarrow> nat option" where
  "other_checked i bs = find (\<lambda>j. j \<noteq> i \<and> checked (bs ! j)) [0..<length bs]"

definition queryCheckedButton :: "nat \<Rightarrow> radio_button list \<Rightarrow> nat option" where
  "queryCheckedButton i bs =
     (if length bs = 1 then None
      else case other_checked i bs of
             Some j \<Rightarrow> Some j
           | None \<Rightarrow> (if checked (bs ! i) then Some i else None))"

definition setChecked :: "nat \<Rightarrow> bool \<Rightarrow> radio_button list \<Rightarrow> radio_button list" where
  "setChecked i c bs =
     (if checked (bs ! i) = c then bs
      else if \<not> c \<and> queryCheckedButton i bs = Some i then bs
      else (let bs1 = bs[i := (bs ! i)\<lparr>checked := c\<rparr>]
            in if c then
                 (case queryCheckedButton i bs1 of
                    None \<Rightarrow> bs1
                  | Some j \<Rightarrow> (if j = i then bs1 else bs1[j := (bs1 ! j)\<lparr>checked := False\<rparr>]))
               else bs1))"

definition nextCheckState :: "nat \<Rightarrow> radio_button list \<Rightarrow> radio_button list" where
  "nextCheckState i bs = setChecked i (\<not> checked (bs ! i)) bs"

definition click :: "nat \<Rightarrow> box \<Rightarrow> box" where
  "click i b =
     (if i < length (radio_buttons b)
      then toggleParameters (b\<lparr>radio_buttons := nextCheckState i (radio_buttons b)\<rparr>)
      else b)"

text \<open>
  The Edit action of a button's context menu, which the menu offers on the checked button
  only; it runs \<^verbatim>\<open>handleEdit\<close> of the button at position \<open>i\<close>.
\<close>

definition editAct :: "nat \<Rightarrow> string list \<Rightarrow> 'v heap \<times> box \<Rightarrow> 'v heap \<times> box" where
  "editAct i ws s =
     (let (h, b) = s
      in if i < length (radio_buttons b) \<and> checked (radio_buttons b ! i)
         then (let (h', btn) = handleEdit ws (h, radio_buttons b ! i)
               in (h', b\<lparr>radio_buttons := (radio_buttons b)[i := btn]\<rparr>))
         else s)"

definition addParameters :: "ref \<Rightarrow> string \<Rightarrow> box \<Rightarrow> box" where
  "addParameters params parameters_file b =
     (let b1 = b\<lparr>current_parameters := Some params\<rparr>;
          radio_button = ParametersRadioButton_init (next_id b1) params parameters_file;
          b2 = b1\<lparr>radio_buttons := radio_buttons b1 @ [radio_button], next_id := Suc (next_id b1)\<rparr>
      in if length (radio_buttons b2) = 1 then click (length (radio_buttons b2) - 1) b2 else b2)"

definition getButtonNames :: "box \<Rightarrow> string list" where
  "getButtonNames b = map button_text (radio_buttons b)"

definition getCurrentParameters :: "box \<Rightarrow> ref option" where
  "getCurrentParameters b = current_parameters b"

text \<open>
  The identifier of an entry is "an integer or a string". A string is never a member of
  \<^verbatim>\<open>range(...)\<close> and an integer is never a member of the list of names, which gives the
  two membership tests; \<^verbatim>\<open>list.index\<close> is the position of the first occurrence.
\<close>

datatype ident = Name string | Pos int

definition in_names :: "ident \<Rightarrow> string list \<Rightarrow> bool" where
  "in_names param_index button_names =
     (case param_index of Name s \<Rightarrow> s \<in> set button_names | Pos k \<Rightarrow> False)"

definition in_range :: "ident \<Rightarrow> nat \<Rightarrow> bool" where
  "in_range param_index n =
     (case param_index of Name s \<Rightarrow> False | Pos k \<Rightarrow> 0 \<le> k \<and> k < int n)"

definition list_index :: "string list \<Rightarrow> ident \<Rightarrow> int" where
  "list_index button_names param_index =
     (case param_index of
        Name s \<Rightarrow> int (length (takeWhile (\<lambda>x. x \<noteq> s) button_names))
      | Pos k \<Rightarrow> k)"

definition getIndexOfParameters :: "box \<Rightarrow> ident \<Rightarrow> int" where
  "getIndexOfParameters b param_index =
     (let button_names = getButtonNames b
      in if in_names param_index button_names then list_index button_names param_index
         else if in_range param_index (length button_names)
              then (case param_index of Pos k \<Rightarrow> k | Name s \<Rightarrow> - 1)
              else - 1)"

text \<open>
  \<^verbatim>\<open>setCurrentParameters\<close> returns a boolean and may print one line; the result is the
  returned value, the lines printed and the box afterwards.
\<close>

datatype message = NotAvailable ident

definition setCurrentParameters :: "ident \<Rightarrow> box \<Rightarrow> bool \<times> message list \<times> box" where
  "setCurrentParameters param_index b =
     (let index = getIndexOfParameters b param_index
      in if index \<noteq> - 1 then
           (if Some (button_id (radio_buttons b ! nat index)) = current_button b
            then (True, [], b)
            else (False, [], click (nat index) b))
         else (True, [NotAvailable param_index], b))"

text \<open>
  What holds of the box in every state it reaches: the buttons are distinct objects made
  by the box, and a button that is checked is the current button. It holds of the new box
  and every modelled operation keeps it (see the lemmas on \<open>box_inv\<close>).
\<close>

definition box_inv :: "box \<Rightarrow> bool" where
  "box_inv b =
     (distinct (map button_id (radio_buttons b)) \<and>
      list_all (\<lambda>btn. button_id btn < next_id b) (radio_buttons b) \<and>
      list_all (\<lambda>btn. checked btn \<longrightarrow> current_button b = Some (button_id btn)) (radio_buttons b))"

text \<open>Example boxes: one entry, and a second one added to it.\<close>

definition box1 :: box where
  "box1 = addParameters 0 ''/data/default.xml'' QParametersBox_init"

definition box2 :: box where
  "box2 = addParameters 1 ''/data/other.xml'' box1"

text \<open>
  A store with the two trees of the example boxes, and the two-entry box after the Edit
  action on its first (checked) button.
\<close>

definition heap2 :: "int heap" where
  "heap2 = \<lparr>objs = (\<lambda>r. Map.empty)(0 := [''.x'' \<mapsto> 1, ''.y'' \<mapsto> 5], 1 := [''.x'' \<mapsto> 4, ''.y'' \<mapsto> 5]),
            next_free = 2\<rparr>"

definition edited_box :: "int heap \<times> box" where
  "edited_box = editAct 0 [''.x'', ''.y''] (heap2, box2)"

section \<open>The mosaic view (mosaicView.py)\<close>

text \<open>
  Python's floats are taken as exact rational numbers here; NaN, infinities and rounding
  in the last place are outside the model. The exceptions the modelled code can raise:
\<close>

datatype py_exception = IndexError | AttributeError | ZeroDivisionError

subsection \<open>Crosshair\<close>

record crosshair =
  ch_size :: rat
  r_size :: rat
  visible :: bool

definition Crosshair_init :: crosshair where
  "Crosshair_init = \<lparr>ch_size = 15, r_size = 15, visible = False\<rparr>"

text \<open>What \<^verbatim>\<open>paint\<close> asks of the painter, in order.\<close>

datatype draw = SetPen nat nat nat | DrawLine rat rat rat rat | DrawEllipse rat rat rat rat

definition paint :: "crosshair \<Rightarrow> draw list" where
  "paint c =
     (if visible c then
        [SetPen 0 0 255,
         DrawLine (- r_size c) 0 (r_size c) 0,
         DrawLine 0 (- r_size c) 0 (r_size c),
         DrawEllipse (- (1 / 2) * r_size c) (- (1 / 2) * r_size c) (r_size c) (r_size c)]
      else [])"

text \<open>
  Python 3's \<^verbatim>\<open>round\<close> with one argument returns the nearest integer, and the even one
  of the two when the argument lies halfway between them.
\<close>

definition py_round :: "rat \<Rightarrow> int" where
  "py_round x =
     (let f = \<lfloor>x\<rfloor>; d = x - of_int f
      in if d < 1 / 2 then f else if 1 / 2 < d then f + 1 else if even f then f else f + 1)"

definition Crosshair_setScale :: "rat \<Rightarrow> crosshair \<Rightarrow> py_exception + crosshair" where
  "Crosshair_setScale scale c =
     (if scale = 0 then Inl ZeroDivisionError
      else Inr (c\<lparr>r_size := of_int (py_round (ch_size c / scale))\<rparr>))"

definition setVisible :: "bool \<Rightarrow> crosshair \<Rightarrow> crosshair" where
  "setVisible is_visible c =
     (if is_visible then c\<lparr>visible := True\<rparr> else c\<lparr>visible := False\<rparr>)"

subsection \<open>MosaicView\<close>

text \<open>
  The fields of the view that the modelled handlers use, and the values emitted on the
  signal \<^verbatim>\<open>scaleChange\<close> so far (latest last).
\<close>

record mosaic_view =
  view_scale :: rat
  zoom_in :: rat
  zoom_out :: rat
  scaleChange :: "rat list"

definition MosaicView_init :: mosaic_view where
  "MosaicView_init =
     \<lparr>view_scale = 1, zoom_in = 12 / 10, zoom_out = 1 / (12 / 10), scaleChange = []\<rparr>"

definition MosaicView_setScale :: "rat \<Rightarrow> mosaic_view \<Rightarrow> mosaic_view" where
  "MosaicView_setScale scale v = v\<lparr>view_scale := scale\<rparr>"

text \<open>
  \<^verbatim>\<open>wheelEvent\<close> gets the wheel's \<^verbatim>\<open>angleDelta()\<close> as a pair; \<^verbatim>\<open>isNull()\<close> holds when both
  components are zero. The handler changes the scale of the view and emits it. It does
  not refer to a cross-hair: the call \<^verbatim>\<open>self.cross_hair.setScale(self.view_scale)\<close> at its
  end is commented out.
\<close>

definition wheelEvent :: "int \<times> int \<Rightarrow> mosaic_view \<Rightarrow> mosaic_view" where
  "wheelEvent angleDelta v =
     (if \<not> (fst angleDelta = 0 \<and> snd angleDelta = 0) then
        (let v1 = (if snd angleDelta > 0
                   then MosaicView_setScale (view_scale v * zoom_in v)
                          (v\<lparr>view_scale := view_scale v * zoom_in v\<rparr>)
                   else MosaicView_setScale (view_scale v * zoom_out v)
                          (v\<lparr>view_scale := view_scale v * zoom_out v\<rparr>))
         in v1\<lparr>scaleChange := scaleChange v1 @ [view_scale v1]\<rparr>)
      else v)"

text \<open>
  The module imports \<^verbatim>\<open>QtCore\<close>, \<^verbatim>\<open>QtGui\<close> and \<^verbatim>\<open>QtWidgets\<close> from PyQt5 and reaches every Qt
  class as an attribute of one of them. \<open>PyQt5_provides\<close> records, for the classes the
  module names, which PyQt5 module has them: in Qt 5 the widget classes, \<^verbatim>\<open>QMessageBox\<close>
  among them, are in \<^verbatim>\<open>QtWidgets\<close>, not in \<^verbatim>\<open>QtGui\<close>. Looking up an attribute that a module
  does not have raises \<^verbatim>\<open>AttributeError\<close>.
\<close>

datatype qt_module = QtCore | QtGui | QtWidgets

definition PyQt5_provides :: "qt_module \<Rightarrow> string list" where
  "PyQt5_provides m =
     (case m of
        QtCore \<Rightarrow> [''QRectF'', ''QSize'', ''Qt'', ''pyqtSignal'']
      | QtGui \<Rightarrow> [''QBrush'', ''QColor'', ''QCursor'', ''QPainter'', ''QPen'', ''QTransform'']
      | QtWidgets \<Rightarrow> [''QGraphicsItem'', ''QGraphicsView'', ''QMessageBox''])"

definition module_attr :: "qt_module \<Rightarrow> string \<Rightarrow> py_exception + string" where
  "module_attr m name = (if name \<in> set (PyQt5_provides m) then Inr name else Inl AttributeError)"

text \<open>
  \<^verbatim>\<open>dropEvent\<close> gets the local file names of the dropped URLs, in the order of the drop.
  What it does to the outside is a list of effects: an emission of
  \<^verbatim>\<open>mosaicViewDropEvent\<close> with a list of file names, or an information box with its title
  and text. \<^verbatim>\<open>filenames[0]\<close> raises \<^verbatim>\<open>IndexError\<close> on an empty list.
\<close>

datatype drop_effect = DropEventEmitted "string list" | InformationBox string string

definition dropEvent :: "string list \<Rightarrow> py_exception + drop_effect list" where
  "dropEvent urls =
     (let filenames = sort urls
      in case filenames of
           [] \<Rightarrow> Inl IndexError
         | first # others \<Rightarrow>
             (let firstType = snd (splitext first);
                  sameType = map (\<lambda>filename. snd (splitext filename) = firstType) filenames
              in if \<not> list_all (\<lambda>x. x) sameType then
                   (case module_attr QtGui ''QMessageBox'' of
                      Inl exn \<Rightarrow> Inl exn
                    | Inr cls \<Rightarrow> Inr [InformationBox ''Too many file types'' []])
                 else Inr [DropEventEmitted filenames]))"

section \<open>Properties of the parameters editor\<close>

lemma flagged_subset_dom: "flagged e \<subseteq> dom (editor_widgets e)"
  by (auto simp: flagged_def)

lemma finite_flagged: "finite (dom (editor_widgets e)) \<Longrightarrow> finite (flagged e)"
  using flagged_subset_dom by (rule finite_subset)

lemma editor_inv_init:
  assumes "params < next_free h"
  shows "editor_inv (ParametersEditor_init h params ws)"
proof -
  have "flagged \<lparr>editor_widgets = map_of (map (\<lambda>p. (p, ParametersTableWidget_init)) ws),
          n_changed = 0, original_parameters = params, parameters = next_free h,
          updateButton_enabled = False, updateClicked = 0\<rparr> = {}"
    by (auto simp: flagged_def ParametersTableWidget_init_def dest!: map_of_SomeD)
  with assms show ?thesis
    by (simp add: editor_inv_def ParametersEditor_init_def deepcopy_def updateDisplay_def
        enableUpdateButton_def differing_def get_def finite_dom_map_of)
qed


lemma editor_inv_handleUpdate:
  assumes "editor_inv s"
  shows "editor_inv (handleUpdate s)"
proof -
  obtain h e where s: "s = (h, e)" by (cases s)
  from assms s have lt: "parameters e < next_free h"
    and fin: "finite (dom (editor_widgets e))"
    by (simp_all add: editor_inv_def)
  have dom_eq: "dom (\<lambda>p. map_option resetChanged (editor_widgets e p)) = dom (editor_widgets e)"
    by (auto simp: dom_def)
  have fl: "flagged (e\<lparr>editor_widgets := (\<lambda>p. map_option resetChanged (editor_widgets e p)),
      original_parameters := next_free h, n_changed := 0, updateClicked := Suc (updateClicked e)\<rparr>) = {}"
    by (auto simp: flagged_def resetChanged_def)
  from lt fin show ?thesis
    unfolding s
    by (simp add: editor_inv_def handleUpdate_def deepcopy_def differing_def get_def dom_eq fl)
qed


lemma handleParameterChanged_widget:
  assumes "editor_widgets e p = Some w"
  shows "handleParameterChanged p v (h, e) =
    Ok (setv h (parameters e) p v,
        (let c = changed_after (h, e) p v;
             n = n_changed e + (if c = am_changed w then 0 else if c then 1 else - 1)
         in e\<lparr>editor_widgets := (editor_widgets e)
                (p \<mapsto> if c = am_changed w then w
                       else w\<lparr>am_changed := c, name_label := (if c then Red else Black)\<rparr>),
              n_changed := n,
              updateButton_enabled := (n \<noteq> 0)\<rparr>))"
  using assms
  by (auto simp: handleParameterChanged_def Let_def setChanged_def changed_after_def get_def setv_def
      updateDisplay_def enableUpdateButton_def)

lemma editor_inv_handleParameterChanged:
  assumes inv: "editor_inv s" and ok: "handleParameterChanged p v s = Ok s'"
  shows "editor_inv s'"
proof -
  obtain h e where s: "s = (h, e)" by (cases s)
  from ok s obtain w where w: "editor_widgets e p = Some w"
    by (auto simp: handleParameterChanged_def Let_def split: option.splits)
  define c where "c = changed_after (h, e) p v"
  from inv s have ne: "original_parameters e \<noteq> parameters e"
    and lt: "original_parameters e < next_free h" "parameters e < next_free h"
    and fin: "finite (dom (editor_widgets e))"
    and diff: "differing (h, e) = flagged e"
    and cnt: "n_changed e = int (card (flagged e))"
    by (simp_all add: editor_inv_def)
  have finf: "finite (flagged e)" using fin by (rule finite_flagged)
  have flag_p: "p \<in> flagged e \<longleftrightarrow> am_changed w"
    using w by (simp add: flagged_def)
  have d1: "differing (setv h (parameters e) p v, e') = (if c then insert p (flagged e) else flagged e - {p})"
    if "original_parameters e' = original_parameters e" "parameters e' = parameters e" for e'
    using diff ne that unfolding c_def
    by (auto simp: differing_def get_def setv_def changed_after_def split: if_splits)
  have dom': "dom ((editor_widgets e)(p \<mapsto> w')) = dom (editor_widgets e)" for w'
    using w by auto
  define e' where "e' = (let n = n_changed e + (if c = am_changed w then 0 else if c then 1 else - 1)
         in e\<lparr>editor_widgets := (editor_widgets e)
                (p \<mapsto> if c = am_changed w then w
                       else w\<lparr>am_changed := c, name_label := (if c then Red else Black)\<rparr>),
              n_changed := n,
              updateButton_enabled := (n \<noteq> 0)\<rparr>)"
  have s': "s' = (setv h (parameters e) p v, e')"
    using ok unfolding s handleParameterChanged_widget[OF w] c_def e'_def by (simp add: Let_def)
  have refs: "original_parameters e' = original_parameters e" "parameters e' = parameters e"
    by (simp_all add: e'_def Let_def)
  have dom_e': "dom (editor_widgets e') = dom (editor_widgets e)"
    using w by (auto simp: e'_def Let_def)
  have n_e': "n_changed e' = n_changed e + (if c = am_changed w then 0 else if c then 1 else - 1)"
    by (simp add: e'_def Let_def)
  have fl: "flagged e' = (if c then insert p (flagged e) else flagged e - {p})"
    using flag_p by (auto simp: flagged_def e'_def Let_def)
  have card_eq: "int (card (if c then insert p (flagged e) else flagged e - {p})) =
      n_changed e + (if c = am_changed w then 0 else if c then 1 else - 1)"
  proof (cases c)
    case True
    then show ?thesis using finf flag_p cnt by (auto simp: card_insert_if)
  next
    case False
    show ?thesis
    proof (cases "p \<in> flagged e")
      case True
      then have "0 < card (flagged e)" using finf by (auto simp: card_gt_0_iff)
      then have "int (card (flagged e) - 1) = int (card (flagged e)) - 1" by simp
      with True \<open>\<not> c\<close> flag_p cnt show ?thesis by simp
    next
      case False
      with \<open>\<not> c\<close> flag_p cnt show ?thesis by simp
    qed
  qed
  have nf: "next_free (setv h (parameters e) p v) = next_free h"
    by (simp add: setv_def)
  show ?thesis
    unfolding s' editor_inv_def
    using lt ne fin by (simp add: nf d1[OF refs] fl dom_e' card_eq refs n_e' del: One_nat_def)
qed


lemma run_inv:
  "editor_inv s \<Longrightarrow> run evs s = Ok s' \<Longrightarrow> editor_inv s'"
proof (induction evs s rule: run.induct)
  case (1 s)
  then show ?case by simp
next
  case (2 pname pvalue evs s)
  then show ?case
    by (auto split: result.splits dest: editor_inv_handleParameterChanged)
next
  case (3 evs s)
  then show ?case by (simp add: editor_inv_handleUpdate)
qed

lemma dom_handleParameterChanged:
  assumes "handleParameterChanged p v s = Ok s'"
  shows "dom (editor_widgets (snd s')) = dom (editor_widgets (snd s))"
proof -
  obtain h e where s: "s = (h, e)" by (cases s)
  from assms s obtain w where w: "editor_widgets e p = Some w"
    by (auto simp: handleParameterChanged_def Let_def split: option.splits)
  show ?thesis
    using assms w unfolding s handleParameterChanged_widget[OF w]
    by (auto simp: Let_def split: if_splits)
qed

lemma dom_handleUpdate:
  "dom (editor_widgets (snd (handleUpdate s))) = dom (editor_widgets (snd s))"
  by (cases s) (auto simp: handleUpdate_def deepcopy_def Let_def dom_def)

lemma handleParameterChanged_total:
  assumes "p \<in> dom (editor_widgets (snd s))"
  shows "\<exists>s'. handleParameterChanged p v s = Ok s'"
proof -
  obtain h e where s: "s = (h, e)" by (cases s)
  from assms s obtain w where w: "editor_widgets e p = Some w" by auto
  show ?thesis unfolding s handleParameterChanged_widget[OF w] by simp
qed

lemma run_total:
  "\<forall>ev\<in>set evs. from_widget ws ev \<Longrightarrow> set ws \<subseteq> dom (editor_widgets (snd s))
     \<Longrightarrow> \<exists>s'. run evs s = Ok s'"
proof (induction evs s rule: run.induct)
  case (1 s)
  then show ?case by simp
next
  case (2 pname pvalue evs s)
  then have "pname \<in> dom (editor_widgets (snd s))" by auto
  then obtain s1 where s1: "handleParameterChanged pname pvalue s = Ok s1"
    using handleParameterChanged_total[of pname s pvalue] by auto
  with 2 show ?case by (simp add: dom_handleParameterChanged[OF s1])
next
  case (3 evs s)
  then show ?case by (simp add: dom_handleUpdate)
qed

lemma dom_init:
  "dom (editor_widgets (snd (ParametersEditor_init h params ws))) = set ws"
  by (force simp: ParametersEditor_init_def deepcopy_def updateDisplay_def enableUpdateButton_def
        dom_map_of_conv_image_fst image_image)

lemma editor_inv_count:
  assumes "editor_inv s"
  shows "n_changed (snd s) = int (card (differing s))"
  using assms by (cases s) (simp add: editor_inv_def)

text \<open>
  C1. After any sequence of parameter-change events (sent by editor widgets) and
  update-button activations, starting from a freshly constructed editor, the handlers
  all return and the change counter \<open>n_changed\<close> is exactly the number of paths at which
  the edited tree differs from the original tree; in particular it is never negative.
\<close>

theorem change_counter_exact:
  assumes "params < next_free h" and "\<forall>ev\<in>set evs. from_widget ws ev"
  shows "\<exists>s'. run evs (ParametersEditor_init h params ws) = Ok s' \<and>
           n_changed (snd s') = int (card (differing s')) \<and> 0 \<le> n_changed (snd s')"
proof -
  from assms(2) obtain s' where s': "run evs (ParametersEditor_init h params ws) = Ok s'"
    using run_total[of evs ws "ParametersEditor_init h params ws"] by (auto simp: dom_init)
  have "editor_inv s'"
    using editor_inv_init[OF assms(1)] s' by (rule run_inv)
  then have "n_changed (snd s') = int (card (differing s'))" by (rule editor_inv_count)
  with s' show ?thesis by auto
qed

theorem change_counter_exact_witness:
  "\<exists>s'. run [ParameterChanged ''.x'' 2, ParameterChanged ''.y'' 7, UpdateButtonClicked,
              ParameterChanged ''.x'' 3, ParameterChanged ''.x'' 2]
             (ParametersEditor_init heap0 0 [''.x'', ''.y'']) = Ok s' \<and>
        n_changed (snd s') = int (card (differing s')) \<and> 0 \<le> n_changed (snd s')"
  by (rule change_counter_exact) (simp_all add: heap0_def)




text \<open>
  C4. From any editor state, the update action (a) leaves no widget flagged as changed and
  keeps the set of widgets, (b) makes the original tree a newly allocated copy of the
  edited tree, so that both agree at every path while the edited tree keeps its values,
  (c) sets the change counter to 0 and (d) emits \<^verbatim>\<open>updateClicked\<close> exactly once.
\<close>

theorem handleUpdate_commits:
  assumes "handleUpdate (h, e) = (h', e')"
  shows "flagged e' = {} \<and>
         dom (editor_widgets e') = dom (editor_widgets e) \<and>
         original_parameters e' = next_free h \<and>
         parameters e' = parameters e \<and>
         (\<forall>p. get h' (original_parameters e') p = get h' (parameters e') p) \<and>
         (\<forall>p. get h' (parameters e') p = get h (parameters e) p) \<and>
         differing (h', e') = {} \<and>
         n_changed e' = 0 \<and>
         updateClicked e' = updateClicked e + 1"
  using assms
  by (auto simp: handleUpdate_def deepcopy_def Let_def get_def differing_def resetChanged_def flagged_def)

lemma untouched_init:
  "params < next_free h \<Longrightarrow> untouched h params (ParametersEditor_init h params ws)"
  by (simp add: untouched_def ParametersEditor_init_def deepcopy_def updateDisplay_def
      enableUpdateButton_def getParameters_def get_def)

lemma untouched_handleParameterChanged:
  "untouched h0 params s \<Longrightarrow> untouched h0 params (state_of (handleParameterChanged p v s))"
  by (cases s)
    (auto simp: untouched_def handleParameterChanged_def Let_def setv_def get_def getParameters_def
      setChanged_def updateDisplay_def enableUpdateButton_def split: option.splits)

lemma untouched_run:
  "untouched h0 params s \<Longrightarrow> UpdateButtonClicked \<notin> set evs
     \<Longrightarrow> untouched h0 params (state_of (run evs s))"
proof (induction evs s rule: run.induct)
  case (1 s)
  then show ?case by simp
next
  case (2 pname pvalue evs s)
  from 2(2) have u: "untouched h0 params (state_of (handleParameterChanged pname pvalue s))"
    by (rule untouched_handleParameterChanged)
  show ?case
  proof (cases "handleParameterChanged pname pvalue s")
    case (Ok s1)
    with 2 u show ?thesis by simp
  next
    case (KeyError s1)
    with u show ?thesis by simp
  qed
next
  case (3 evs s)
  then show ?case by simp
qed

text \<open>
  C5. After any sequence of change events without an update-button activation (whether
  the handlers returned or one raised), \<^verbatim>\<open>getParameters\<close> still returns the tree
  supplied at construction, and that tree holds at every path the value it held at
  construction: the edits went to the deep copy only.
\<close>

theorem edits_invisible_until_commit:
  assumes "params < next_free h" and "UpdateButtonClicked \<notin> set evs"
    and "state_of (run evs (ParametersEditor_init h params ws)) = (h', e')"
  shows "getParameters e' = params \<and> (\<forall>p. get h' (getParameters e') p = get h params p)"
  using untouched_run[OF untouched_init[OF assms(1)] assms(2), of ws] assms(3)
  by (simp add: untouched_def)


lemma dom_run:
  "run evs s = Ok s' \<Longrightarrow> dom (editor_widgets (snd s')) = dom (editor_widgets (snd s))"
proof (induction evs s rule: run.induct)
  case (1 s)
  then show ?case by simp
next
  case (2 pname pvalue evs s)
  then show ?case by (auto split: result.splits simp: dom_handleParameterChanged)
next
  case (3 evs s)
  then show ?case by (simp add: dom_handleUpdate)
qed

lemmas editor_defs = ParametersEditor_init_def deepcopy_def updateDisplay_def enableUpdateButton_def
  handleParameterChanged_def handleUpdate_def setv_def get_def setChanged_def resetChanged_def
  ParametersTableWidget_init_def heap0_def Let_def getParameters_def

text \<open>Runs of the editor on the example store.\<close>

lemma example_counter:
  "n_changed (snd (state_of (run [ParameterChanged ''.x'' 2, ParameterChanged ''.y'' 7]
      (ParametersEditor_init heap0 0 [''.x'', ''.y''])))) = 2"
  by (simp add: editor_defs)

lemma example_revert:
  "n_changed (snd (state_of (run [ParameterChanged ''.x'' 2, ParameterChanged ''.y'' 7, ParameterChanged ''.x'' 1]
      (ParametersEditor_init heap0 0 [''.x'', ''.y''])))) = 1"
  by (simp add: editor_defs)


theorem handleUpdate_commits_witness:
  "let s = state_of (run [ParameterChanged ''.x'' 2] (ParametersEditor_init heap0 0 [''.x'', ''.y'']));
       h = fst s; e = snd s; h' = fst (handleUpdate s); e' = snd (handleUpdate s)
   in flagged e' = {} \<and>
         dom (editor_widgets e') = dom (editor_widgets e) \<and>
         original_parameters e' = next_free h \<and>
         parameters e' = parameters e \<and>
         (\<forall>p. get h' (original_parameters e') p = get h' (parameters e') p) \<and>
         (\<forall>p. get h' (parameters e') p = get h (parameters e) p) \<and>
         differing (h', e') = {} \<and>
         n_changed e' = 0 \<and>
         updateClicked e' = updateClicked e + 1"
  unfolding Let_def
  by (rule handleUpdate_commits) simp

theorem edits_invisible_until_commit_witness:
  "let s' = state_of (run [ParameterChanged ''.x'' 2, ParameterChanged ''.y'' 7]
                 (ParametersEditor_init heap0 0 [''.x'', ''.y'']))
   in getParameters (snd s') = 0 \<and>
      (\<forall>p. get (fst s') (getParameters (snd s')) p = get heap0 0 p)"
proof -
  let ?evs = "[ParameterChanged ''.x'' 2, ParameterChanged ''.y'' 7] :: int event list"
  let ?s = "state_of (run ?evs (ParametersEditor_init heap0 0 [''.x'', ''.y'']))"
  have a: "(0::nat) < next_free heap0" by (simp add: heap0_def)
  have b: "UpdateButtonClicked \<notin> set ?evs" by simp
  have c: "?s = (fst ?s, snd ?s)" by (simp only: prod.collapse)
  from edits_invisible_until_commit[OF a b c] show ?thesis unfolding Let_def .
qed

lemma example_edit_visible_in_snapshot:
  "let (h', e') = state_of (run [ParameterChanged ''.x'' 2, ParameterChanged ''.y'' 7]
                 (ParametersEditor_init heap0 0 [''.x'', ''.y'']))
   in get h' (parameters e') ''.x'' = Some 2 \<and> get h' (getParameters e') ''.x'' = Some 1"
  by (simp add: editor_defs)

section \<open>Properties of the selector list\<close>

lemma enableEditor_fields [simp]:
  "checked (enableEditor btn) = checked btn"
  "button_id (enableEditor btn) = button_id btn"
  "rb_parameters (enableEditor btn) = rb_parameters btn"
  "button_text (enableEditor btn) = button_text btn"
  by (simp_all add: enableEditor_def split: option.splits)

lemma toggle_body_fst: "fst (toggle_body btn st) = enableEditor btn"
  by (simp add: toggle_body_def Let_def split_beta)

lemma toggle_body_snd:
  "snd (toggle_body btn (cb, cp, n)) =
     (if checked btn \<and> Some (button_id btn) \<noteq> cb
      then (Some (button_id btn), Some (rb_parameters btn), n + 1) else (cb, cp, n))"
  by (simp add: toggle_body_def Let_def)

lemma toggle_loop_Cons:
  "toggle_loop (btn # rest) st =
     (enableEditor btn # fst (toggle_loop rest (snd (toggle_body btn st))),
      snd (toggle_loop rest (snd (toggle_body btn st))))"
  by (simp add: split_beta Let_def toggle_body_fst)

lemma toggle_loop_buttons: "fst (toggle_loop bs st) = map enableEditor bs"
  by (induction bs arbitrary: st) (simp_all add: toggle_loop_Cons del: toggle_loop.simps(2))

lemma toggle_loop_unchecked:
  "\<forall>btn\<in>set bs. \<not> checked btn \<Longrightarrow> snd (toggle_loop bs st) = st"
proof (induction bs arbitrary: st)
  case Nil
  then show ?case by simp
next
  case (Cons btn bs)
  obtain cb cp n where st: "st = (cb, cp, n)" by (cases st)
  from Cons show ?case
    by (simp add: toggle_loop_Cons st toggle_body_snd del: toggle_loop.simps(2))
qed

lemma toggle_loop_append:
  "snd (toggle_loop (xs @ ys) st) = snd (toggle_loop ys (snd (toggle_loop xs st)))"
  by (induction xs arbitrary: st) (simp_all add: toggle_loop_Cons del: toggle_loop.simps(2))

lemma toggle_loop_one_checked:
  assumes "\<forall>btn\<in>set pre. \<not> checked btn" and "\<forall>btn\<in>set post. \<not> checked btn" and "checked x"
  shows "snd (toggle_loop (pre @ x # post) (cb, cp, n)) =
           (if Some (button_id x) \<noteq> cb then (Some (button_id x), Some (rb_parameters x), n + 1)
            else (cb, cp, n))"
  using assms
  by (simp add: toggle_loop_append toggle_loop_unchecked toggle_loop_Cons toggle_body_snd
      del: toggle_loop.simps(2))

text \<open>Qt's check states: a click changes nothing but the flags \<open>checked\<close>, and in a
  list with at most one checked button it leaves no button checked but the clicked one.\<close>

lemma other_checked_None:
  "other_checked i bs = None \<longleftrightarrow> (\<forall>j<length bs. j \<noteq> i \<longrightarrow> \<not> checked (bs ! j))"
  by (auto simp: other_checked_def find_None_iff)

lemma other_checked_Some:
  "other_checked i bs = Some j \<Longrightarrow> j < length bs \<and> j \<noteq> i \<and> checked (bs ! j)"
  by (auto simp: other_checked_def find_Some_iff)

lemma length_setChecked [simp]: "length (setChecked i c bs) = length bs"
  by (auto simp: setChecked_def Let_def split: option.splits)

lemma length_nextCheckState [simp]: "length (nextCheckState i bs) = length bs"
  by (simp add: nextCheckState_def)

lemma update_checked_erased:
  "map (\<lambda>b. b\<lparr>checked := False\<rparr>) (bs[i := (bs ! i)\<lparr>checked := c\<rparr>]) =
     map (\<lambda>b. b\<lparr>checked := False\<rparr>) bs"
proof (cases "i < length bs")
  case True
  then show ?thesis by (simp add: map_update list_update_same_conv)
next
  case False
  then have "bs[i := (bs ! i)\<lparr>checked := c\<rparr>] = bs"
    by (intro list_update_beyond) simp
  then show ?thesis by simp
qed

lemma setChecked_erased:
  "map (\<lambda>b. b\<lparr>checked := False\<rparr>) (setChecked i c bs) = map (\<lambda>b. b\<lparr>checked := False\<rparr>) bs"
  unfolding setChecked_def Let_def
  by (simp only: update_checked_erased split: option.split if_split) simp

lemma erased_nth:
  assumes "map (\<lambda>b. b\<lparr>checked := False\<rparr>) xs = map (\<lambda>b. b\<lparr>checked := False\<rparr>) ys"
    and "k < length ys"
  shows "xs ! k = (ys ! k)\<lparr>checked := checked (xs ! k)\<rparr>"
proof -
  have len: "length xs = length ys" using assms(1) by (rule map_eq_imp_length_eq)
  have "(map (\<lambda>b. b\<lparr>checked := False\<rparr>) xs) ! k = (map (\<lambda>b. b\<lparr>checked := False\<rparr>) ys) ! k"
    using assms(1) by simp
  then have "(xs ! k)\<lparr>checked := False\<rparr> = (ys ! k)\<lparr>checked := False\<rparr>"
    using assms(2) len by simp
  then show ?thesis
    by (cases "xs ! k", cases "ys ! k") simp
qed

lemma nextCheckState_nth:
  "k < length bs \<Longrightarrow>
     nextCheckState i bs ! k = (bs ! k)\<lparr>checked := checked (nextCheckState i bs ! k)\<rparr>"
  unfolding nextCheckState_def by (rule erased_nth[OF setChecked_erased])

lemma nextCheckState_only:
  assumes i: "i < length bs"
    and amo: "\<forall>j<length bs. \<forall>k<length bs. checked (bs ! j) \<longrightarrow> checked (bs ! k) \<longrightarrow> j = k"
    and k: "k < length bs" and c: "checked (nextCheckState i bs ! k)"
  shows "k = i"
proof (cases "checked (bs ! i)")
  case True
  then have others: "\<forall>j<length bs. j \<noteq> i \<longrightarrow> \<not> checked (bs ! j)"
    using amo i by blast
  then have oc: "other_checked i bs = None" by (simp add: other_checked_None)
  show ?thesis
  proof (cases "length bs = 1")
    case True
    with i k show ?thesis by simp
  next
    case False
    then have "nextCheckState i bs = bs"
      using True oc by (simp add: nextCheckState_def setChecked_def queryCheckedButton_def)
    with c others k show ?thesis by auto
  qed
next
  case False
  define bs1 where "bs1 = bs[i := (bs ! i)\<lparr>checked := True\<rparr>]"
  have len1: "length bs1 = length bs" by (simp add: bs1_def)
  have n1: "checked (bs1 ! j) \<longleftrightarrow> j = i \<or> checked (bs ! j)" if "j < length bs" for j
    using that i by (auto simp: bs1_def nth_list_update)
  have ns: "nextCheckState i bs =
      (case queryCheckedButton i bs1 of None \<Rightarrow> bs1
       | Some j \<Rightarrow> (if j = i then bs1 else bs1[j := (bs1 ! j)\<lparr>checked := False\<rparr>]))"
    unfolding bs1_def using False by (simp add: nextCheckState_def setChecked_def Let_def)
  show ?thesis
  proof (cases "other_checked i bs1")
    case None
    then have "\<forall>j<length bs. j \<noteq> i \<longrightarrow> \<not> checked (bs1 ! j)"
      by (simp add: other_checked_None len1)
    moreover have "nextCheckState i bs = bs1"
      using None unfolding ns by (auto simp: queryCheckedButton_def)
    ultimately show ?thesis using c k by auto
  next
    case (Some j)
    then have j: "j < length bs" "j \<noteq> i" "checked (bs1 ! j)"
      using other_checked_Some[OF Some] by (simp_all add: len1)
    then have cj: "checked (bs ! j)" using n1 by simp
    show ?thesis
    proof (cases "length bs = 1")
      case True
      with i k show ?thesis by simp
    next
      case F: False
      then have "nextCheckState i bs = bs1[j := (bs1 ! j)\<lparr>checked := False\<rparr>]"
        using Some j unfolding ns by (simp add: queryCheckedButton_def len1)
      with c k j have "k \<noteq> j" "checked (bs1 ! k)"
        by (auto simp: nth_list_update len1 split: if_splits)
      then have "k = i \<or> checked (bs ! k)" using n1 k by simp
      with amo cj j k \<open>k \<noteq> j\<close> show ?thesis by blast
    qed
  qed
qed

lemma nextCheckState_checks:
  assumes "i < length bs" and "\<not> checked (bs ! i)"
  shows "checked (nextCheckState i bs ! i)"
  using assms
  by (auto simp: nextCheckState_def setChecked_def Let_def queryCheckedButton_def
      dest!: other_checked_Some split: option.splits)


lemma toggle_loop_current:
  "\<forall>btn\<in>set bs. checked btn \<longrightarrow> Some (button_id btn) = cb
     \<Longrightarrow> snd (toggle_loop bs (cb, cp, n)) = (cb, cp, n)"
  by (induction bs) (auto simp add: toggle_loop_Cons toggle_body_snd simp del: toggle_loop.simps(2))

lemma click_buttons:
  assumes "i < length (radio_buttons b)"
  shows "radio_buttons (click i b) = map enableEditor (nextCheckState i (radio_buttons b))"
  using assms toggle_loop_buttons[of "nextCheckState i (radio_buttons b)"]
  by (simp add: click_def toggleParameters_def split_beta Let_def)

lemma click_next_id: "next_id (click i b) = next_id b"
  by (simp add: click_def toggleParameters_def split_beta Let_def)

lemma box_inv_at_most_one:
  assumes "box_inv b" and "j < length (radio_buttons b)" and "k < length (radio_buttons b)"
    and "checked (radio_buttons b ! j)" and "checked (radio_buttons b ! k)"
  shows "j = k"
proof -
  let ?bs = "radio_buttons b"
  from assms(1) have cur: "\<forall>n<length ?bs. checked (?bs ! n) \<longrightarrow> current_button b = Some (button_id (?bs ! n))"
    by (simp add: box_inv_def list_all_length)
  have "current_button b = Some (button_id (?bs ! j))"
    using cur assms(2,4) by blast
  moreover have "current_button b = Some (button_id (?bs ! k))"
    using cur assms(3,5) by blast
  ultimately have "button_id (?bs ! j) = button_id (?bs ! k)" by simp
  then have "map button_id ?bs ! j = map button_id ?bs ! k"
    using assms(2,3) by simp
  moreover have "distinct (map button_id ?bs)" using assms(1) by (simp add: box_inv_def)
  ultimately show ?thesis
    using nth_eq_iff_index_eq[of "map button_id ?bs" j k] assms(2,3) by simp
qed

lemma click_selection:
  assumes inv: "box_inv b" and i: "i < length (radio_buttons b)"
  shows "(current_button (click i b), current_parameters (click i b), settings_toggled (click i b)) =
     (if Some (button_id (radio_buttons b ! i)) \<noteq> current_button b
      then (Some (button_id (radio_buttons b ! i)), Some (rb_parameters (radio_buttons b ! i)),
            settings_toggled b + 1)
      else (current_button b, current_parameters b, settings_toggled b))"
proof -
  let ?bs = "radio_buttons b"
  let ?bs' = "nextCheckState i ?bs"
  let ?st = "(current_button b, current_parameters b, settings_toggled b)"
  have amo: "\<forall>j<length ?bs. \<forall>k<length ?bs. checked (?bs ! j) \<longrightarrow> checked (?bs ! k) \<longrightarrow> j = k"
    using box_inv_at_most_one[OF inv] by blast
  have only: "k = i" if "k < length ?bs" "checked (?bs' ! k)" for k
    using nextCheckState_only[OF i amo that] .
  have same: "button_id (?bs' ! i) = button_id (?bs ! i)" "rb_parameters (?bs' ! i) = rb_parameters (?bs ! i)"
    by (subst nextCheckState_nth[OF i], simp)+
  have loop: "snd (toggle_loop ?bs' ?st) =
     (if Some (button_id (?bs ! i)) \<noteq> current_button b
      then (Some (button_id (?bs ! i)), Some (rb_parameters (?bs ! i)), settings_toggled b + 1)
      else ?st)"
  proof (cases "Some (button_id (?bs ! i)) = current_button b")
    case True
    have "\<forall>btn\<in>set ?bs'. checked btn \<longrightarrow> Some (button_id btn) = current_button b"
    proof (intro ballI impI)
      fix btn assume "btn \<in> set ?bs'" and c: "checked btn"
      then obtain k where k: "k < length ?bs" "?bs' ! k = btn"
        by (auto simp: in_set_conv_nth)
      with c only have "k = i" by simp
      with k same True show "Some (button_id btn) = current_button b" by auto
    qed
    then show ?thesis using True by (simp add: toggle_loop_current)
  next
    case False
    then have "\<not> checked (?bs ! i)"
      using inv i by (auto simp: box_inv_def list_all_length)
    then have ci: "checked (?bs' ! i)" using i by (simp add: nextCheckState_checks)
    have split: "?bs' = take i ?bs' @ ?bs' ! i # drop (Suc i) ?bs'"
      using i by (simp add: id_take_nth_drop)
    have pre: "\<forall>btn\<in>set (take i ?bs'). \<not> checked btn"
    proof
      fix btn assume "btn \<in> set (take i ?bs')"
      then obtain k where "k < i" "?bs' ! k = btn"
        using i by (auto simp: in_set_conv_nth)
      with only[of k] i show "\<not> checked btn" by auto
    qed
    have post: "\<forall>btn\<in>set (drop (Suc i) ?bs'). \<not> checked btn"
    proof
      fix btn assume "btn \<in> set (drop (Suc i) ?bs')"
      then obtain k where k: "k < length (drop (Suc i) ?bs')" "drop (Suc i) ?bs' ! k = btn"
        by (auto simp: in_set_conv_nth)
      from k(1) have lt: "Suc (i + k) < length ?bs" by simp
      from k have "?bs' ! Suc (i + k) = btn" using i by simp
      with only[OF lt] show "\<not> checked btn" by auto
    qed
    have "snd (toggle_loop (take i ?bs' @ ?bs' ! i # drop (Suc i) ?bs') ?st) =
        (if Some (button_id (?bs' ! i)) \<noteq> current_button b
         then (Some (button_id (?bs' ! i)), Some (rb_parameters (?bs' ! i)), settings_toggled b + 1)
         else ?st)"
      using pre post ci by (rule toggle_loop_one_checked)
    then show ?thesis using False same split by simp
  qed
  then show ?thesis
    using i by (simp add: click_def toggleParameters_def split_beta Let_def)
qed


lemma click_ids:
  assumes "i < length (radio_buttons b)"
  shows "map button_id (radio_buttons (click i b)) = map button_id (radio_buttons b)"
proof -
  have "map button_id (nextCheckState i (radio_buttons b)) = map button_id (radio_buttons b)"
    by (rule nth_equalityI) (simp_all, subst nextCheckState_nth, simp_all)
  then show ?thesis using assms by (simp add: click_buttons comp_def)
qed

text \<open>The invariant of the box holds of the new box, and every operation keeps it.\<close>

lemma box_inv_init: "box_inv QParametersBox_init"
  by (simp add: box_inv_def QParametersBox_init_def)

lemma box_inv_click:
  assumes "box_inv b"
  shows "box_inv (click i b)"
proof (cases "i < length (radio_buttons b)")
  case False
  with assms show ?thesis by (simp add: click_def)
next
  case True
  let ?bs = "radio_buttons b"
  have amo: "\<forall>j<length ?bs. \<forall>k<length ?bs. checked (?bs ! j) \<longrightarrow> checked (?bs ! k) \<longrightarrow> j = k"
    using box_inv_at_most_one[OF assms] by blast
  have ids: "map button_id (radio_buttons (click i b)) = map button_id ?bs"
    using True by (rule click_ids)
  have len: "length (radio_buttons (click i b)) = length ?bs"
    using True by (simp add: click_buttons)
  have cur: "current_button (click i b) = Some (button_id (?bs ! i))"
    using click_selection[OF assms True] by (auto split: if_splits)
  have "current_button (click i b) = Some (button_id (radio_buttons (click i b) ! k))"
    if k: "k < length ?bs" and c: "checked (radio_buttons (click i b) ! k)" for k
  proof -
    from c k True have "checked (nextCheckState i ?bs ! k)" by (simp add: click_buttons)
    then have "k = i" using nextCheckState_only[OF True amo k] by simp
    moreover have "button_id (radio_buttons (click i b) ! i) = button_id (?bs ! i)"
      using arg_cong[OF ids, of "\<lambda>xs. xs ! i"] True len by simp
    ultimately show ?thesis using cur by simp
  qed
  moreover have "button_id (radio_buttons (click i b) ! k) < next_id b" if "k < length ?bs" for k
  proof -
    have "button_id (radio_buttons (click i b) ! k) = button_id (?bs ! k)"
      using arg_cong[OF ids, of "\<lambda>xs. xs ! k"] that len by simp
    then show ?thesis using assms that by (simp add: box_inv_def list_all_length)
  qed
  moreover have "distinct (map button_id (radio_buttons (click i b)))"
    using assms by (simp add: ids box_inv_def)
  ultimately show ?thesis
    by (simp add: box_inv_def list_all_length len click_next_id)
qed

lemma box_inv_addParameters:
  assumes "box_inv b"
  shows "box_inv (addParameters params parameters_file b)"
proof -
  define b2 where "b2 = b\<lparr>current_parameters := Some params,
      radio_buttons := radio_buttons b @ [ParametersRadioButton_init (next_id b) params parameters_file],
      next_id := Suc (next_id b)\<rparr>"
  have "box_inv b2"
    using assms unfolding box_inv_def b2_def
    by (auto simp: ParametersRadioButton_init_def list_all_iff less_Suc_eq)
  then have c: "box_inv (click i b2)" for i by (rule box_inv_click)
  have "addParameters params parameters_file b =
      (if length (radio_buttons b2) = 1 then click (length (radio_buttons b2) - 1) b2 else b2)"
    by (simp add: addParameters_def Let_def b2_def)
  with c \<open>box_inv b2\<close> show ?thesis
    by (cases "length (radio_buttons b2) = 1") simp_all
qed

lemma box_inv_setCurrentParameters:
  assumes "box_inv b"
  shows "box_inv (snd (snd (setCurrentParameters x b)))"
  using assms by (simp add: setCurrentParameters_def Let_def box_inv_click)

lemma box_inv_editAct:
  assumes "box_inv b"
  shows "box_inv (snd (editAct i ws (h, b)))"
proof (cases "i < length (radio_buttons b) \<and> checked (radio_buttons b ! i)")
  case False
  with assms show ?thesis by (auto simp: editAct_def)
next
  case True
  obtain h' btn where he: "handleEdit ws (h, radio_buttons b ! i) = (h', btn)"
    by (cases "handleEdit ws (h, radio_buttons b ! i)")
  then have f: "button_id btn = button_id (radio_buttons b ! i)" "checked btn = checked (radio_buttons b ! i)"
    by (auto simp: handleEdit_def Let_def split: option.splits prod.splits)
  have eq: "snd (editAct i ws (h, b)) = b\<lparr>radio_buttons := (radio_buttons b)[i := btn]\<rparr>"
    using True he by (simp add: editAct_def)
  have ids: "map button_id ((radio_buttons b)[i := btn]) = map button_id (radio_buttons b)"
    using True f by (simp add: map_update list_update_same_conv)
  show ?thesis
    unfolding eq using assms f True
    by (auto simp: box_inv_def ids list_all_length nth_list_update)
qed

text \<open>
  C6. In every state of the box (the invariant \<open>box_inv\<close>), a click on the entry that is
  already the current button publishes no \<^verbatim>\<open>settings_toggled\<close> and leaves the current
  button and tree as they are; a click on any other entry publishes \<^verbatim>\<open>settings_toggled\<close>
  exactly once and makes that entry the current button and its tree the current tree.
\<close>

theorem selection_publishes_once:
  assumes "box_inv b" and "i < length (radio_buttons b)"
  shows "(current_button b = Some (button_id (radio_buttons b ! i)) \<longrightarrow>
            settings_toggled (click i b) = settings_toggled b \<and>
            current_button (click i b) = current_button b \<and>
            current_parameters (click i b) = current_parameters b) \<and>
         (current_button b \<noteq> Some (button_id (radio_buttons b ! i)) \<longrightarrow>
            settings_toggled (click i b) = settings_toggled b + 1 \<and>
            current_button (click i b) = Some (button_id (radio_buttons b ! i)) \<and>
            current_parameters (click i b) = Some (rb_parameters (radio_buttons b ! i)))"
  using click_selection[OF assms] by (auto split: if_splits)

lemma getIndexOfParameters_none:
  "getIndexOfParameters b x = - 1 \<longleftrightarrow>
     \<not> in_names x (getButtonNames b) \<and> \<not> in_range x (length (getButtonNames b))"
  by (cases x) (auto simp: getIndexOfParameters_def in_names_def in_range_def list_index_def Let_def)

text \<open>
  C10. For an identifier that is neither the name of a button nor a position in the list,
  the index lookup yields -1 and \<^verbatim>\<open>setCurrentParameters\<close> returns \<^verbatim>\<open>True\<close>, leaves the box
  as it is (no click, no notification) and only prints a line. It also returns \<^verbatim>\<open>True\<close>
  with the box unchanged when the entry exists and is the current button, so the value
  \<^verbatim>\<open>True\<close> does not tell the two cases apart.
\<close>

theorem setCurrentParameters_unknown:
  "(\<not> in_names x (getButtonNames b) \<and> \<not> in_range x (length (getButtonNames b)) \<longrightarrow>
      getIndexOfParameters b x = - 1 \<and>
      setCurrentParameters x b = (True, [NotAvailable x], b)) \<and>
   (getIndexOfParameters b x \<noteq> - 1 \<and>
      current_button b = Some (button_id (radio_buttons b ! nat (getIndexOfParameters b x))) \<longrightarrow>
      setCurrentParameters x b = (True, [], b))"
  using getIndexOfParameters_none[of b x]
  by (auto simp: setCurrentParameters_def Let_def)

lemmas box_defs = QParametersBox_init_def addParameters_def ParametersRadioButton_init_def
  click_def nextCheckState_def setChecked_def queryCheckedButton_def other_checked_def
  toggleParameters_def toggle_body_def enableEditor_def Let_def
  getFileName_def basename_def splitext_def rfind_def getCurrentParameters_def getButtonNames_def
  box1_def box2_def

text \<open>The example boxes, evaluated.\<close>

lemma box1_value:
  "box1 = \<lparr>current_parameters = Some 0, current_button = Some 0,
      radio_buttons = [\<lparr>button_id = 0, button_text = ''default'', checked = True, rb_changed = False,
         delete_desired = False, editor_dialog = None, rb_parameters = 0\<rparr>],
      settings_toggled = 1, next_id = 1\<rparr>"
  by (simp add: box_defs)

lemma box2_value:
  "box2 = \<lparr>current_parameters = Some 1, current_button = Some 0,
      radio_buttons = [\<lparr>button_id = 0, button_text = ''default'', checked = True, rb_changed = False,
         delete_desired = False, editor_dialog = None, rb_parameters = 0\<rparr>,
        \<lparr>button_id = 1, button_text = ''other'', checked = False, rb_changed = False,
         delete_desired = False, editor_dialog = None, rb_parameters = 1\<rparr>],
      settings_toggled = 1, next_id = 2\<rparr>"
  by (simp add: box1_value) (simp add: box_defs)

lemma box_inv_box2: "box_inv box2"
  unfolding box2_def box1_def by (intro box_inv_addParameters box_inv_init)

text \<open>
  A click on the only button of a box when it is checked unchecks it, and the box goes on
  treating it as the current one.
\<close>

lemma click_lone_checked_button:
  "map checked (radio_buttons (click 0 box1)) = [False] \<and>
   current_button (click 0 box1) = Some 0 \<and>
   settings_toggled (click 0 box1) = settings_toggled box1"
  by (simp add: box1_value) (simp add: box_defs)

theorem setCurrentParameters_unknown_witness:
  "getIndexOfParameters box2 (Name ''missing'') = - 1 \<and>
   setCurrentParameters (Name ''missing'') box2 = (True, [NotAvailable (Name ''missing'')], box2) \<and>
   getIndexOfParameters box2 (Pos 2) = - 1 \<and>
   setCurrentParameters (Pos 2) box2 = (True, [NotAvailable (Pos 2)], box2) \<and>
   setCurrentParameters (Name ''default'') box2 = (True, [], box2)"
  using setCurrentParameters_unknown[of "Name ''missing''" box2]
    setCurrentParameters_unknown[of "Pos 2" box2]
    setCurrentParameters_unknown[of "Name ''default''" box2]
  by (simp add: box2_value getButtonNames_def in_names_def in_range_def getIndexOfParameters_def
      list_index_def)

theorem selection_publishes_once_witness:
  "box_inv box2 \<and>
   settings_toggled (click 0 box2) = settings_toggled box2 \<and>
   current_button (click 0 box2) = current_button box2 \<and>
   settings_toggled (click 1 box2) = settings_toggled box2 + 1 \<and>
   current_button (click 1 box2) = Some 1 \<and>
   current_parameters (click 1 box2) = Some 1"
  using selection_publishes_once[OF box_inv_box2, of 0] selection_publishes_once[OF box_inv_box2, of 1]
    box_inv_box2
  by (simp add: box2_value)

text \<open>
  C7. The code at the failing input: after a first tree (reference 0) and then a
  second tree (reference 1) are added to an empty box, \<^verbatim>\<open>getCurrentParameters\<close> returns the
  second tree, although the current and checked button is still the first one and no
  notification was sent for the second.
\<close>

theorem addParameters_second_entry:
  "getCurrentParameters box1 = Some 0 \<and> current_button box1 = Some 0 \<and>
   getCurrentParameters box2 = Some 1 \<and> current_button box2 = Some 0 \<and>
   map checked (radio_buttons box2) = [True, False] \<and>
   map rb_parameters (radio_buttons box2) = [0, 1] \<and>
   settings_toggled box2 = settings_toggled box1"
  by (simp add: box1_value box2_value getCurrentParameters_def)

section \<open>Properties of the update button\<close>

lemma enableUpdateButton_eq: "enableUpdateButton state e = e\<lparr>updateButton_enabled := state\<rparr>"
  by (simp add: enableUpdateButton_def)

lemma handleParameterChanged_enabled:
  assumes "handleParameterChanged p v s = Ok s'"
  shows "updateButton_enabled (snd s') \<longleftrightarrow> n_changed (snd s') \<noteq> 0"
proof -
  obtain h e where s: "s = (h, e)" by (cases s)
  from assms s obtain w where w: "editor_widgets e p = Some w"
    by (auto simp: handleParameterChanged_def Let_def split: option.splits)
  show ?thesis
    using assms unfolding s handleParameterChanged_widget[OF w] by (auto simp: Let_def)
qed

lemma click_editor:
  assumes "i < length (radio_buttons b)" and "k < length (radio_buttons b)"
  shows "editor_dialog (radio_buttons (click i b) ! k) =
           map_option (\<lambda>e. e\<lparr>updateButton_enabled := checked (radio_buttons (click i b) ! k)\<rparr>)
             (editor_dialog (radio_buttons b ! k))"
proof -
  let ?x = "nextCheckState i (radio_buttons b) ! k"
  have x: "?x = (radio_buttons b ! k)\<lparr>checked := checked ?x\<rparr>"
    using assms(2) by (rule nextCheckState_nth)
  have "editor_dialog ?x = editor_dialog (radio_buttons b ! k)"
    by (subst x) simp
  then show ?thesis
    using assms
    by (simp add: click_buttons enableEditor_def enableUpdateButton_eq split: option.splits)
qed

text \<open>
  C3, as amended. Right after construction, and after every parameter-change event
  handled in a state reached from a fresh editor, the update button is enabled exactly
  when the change counter is greater than zero. A click on a selector radio button does
  not look at the counter: it leaves the update button of every open editor enabled
  exactly when that editor's radio button is checked after the click.
\<close>

theorem update_button_enabled:
  assumes "params < next_free h"
    and "run evs (ParametersEditor_init h params ws) = Ok s"
    and "handleParameterChanged p v s = Ok s'"
    and "i < length (radio_buttons b)" and "k < length (radio_buttons b)"
  shows "(updateButton_enabled (snd (ParametersEditor_init h params ws)) \<longleftrightarrow>
            0 < n_changed (snd (ParametersEditor_init h params ws))) \<and>
         (updateButton_enabled (snd s') \<longleftrightarrow> 0 < n_changed (snd s')) \<and>
         editor_dialog (radio_buttons (click i b) ! k) =
           map_option (\<lambda>e. e\<lparr>updateButton_enabled := checked (radio_buttons (click i b) ! k)\<rparr>)
             (editor_dialog (radio_buttons b ! k))"
proof -
  have "editor_inv s"
    using editor_inv_init[OF assms(1)] assms(2) by (rule run_inv)
  then have "editor_inv s'"
    using assms(3) by (rule editor_inv_handleParameterChanged)
  then have "0 \<le> n_changed (snd s')" by (simp add: editor_inv_count)
  moreover have "updateButton_enabled (snd s') \<longleftrightarrow> n_changed (snd s') \<noteq> 0"
    using assms(3) by (rule handleParameterChanged_enabled)
  ultimately have "updateButton_enabled (snd s') \<longleftrightarrow> 0 < n_changed (snd s')" by auto
  moreover have "updateButton_enabled (snd (ParametersEditor_init h params ws)) \<longleftrightarrow>
            0 < n_changed (snd (ParametersEditor_init h params ws))"
    by (simp add: ParametersEditor_init_def deepcopy_def updateDisplay_def enableUpdateButton_def)
  ultimately show ?thesis using click_editor[OF assms(4,5)] by simp
qed

text \<open>The two-entry example box with the editor of its first entry open, evaluated.\<close>

lemma edited_box_value:
  "snd edited_box = \<lparr>current_parameters = Some 1, current_button = Some 0,
      radio_buttons = [\<lparr>button_id = 0, button_text = ''default'', checked = True, rb_changed = False,
         delete_desired = False,
         editor_dialog = Some \<lparr>editor_widgets = map_of [(''.x'', ParametersTableWidget_init), (''.y'', ParametersTableWidget_init)],
            n_changed = 0, original_parameters = 0, parameters = 2,
            updateButton_enabled = False, updateClicked = 0\<rparr>,
         rb_parameters = 0\<rparr>,
        \<lparr>button_id = 1, button_text = ''other'', checked = False, rb_changed = False,
         delete_desired = False, editor_dialog = None, rb_parameters = 1\<rparr>],
      settings_toggled = 1, next_id = 2\<rparr>"
  by (simp add: edited_box_def editAct_def handleEdit_def box2_value heap2_def
      ParametersEditor_init_def deepcopy_def updateDisplay_def enableUpdateButton_def)

lemma click_checked_of_two:
  "map checked (radio_buttons (click 0 (snd edited_box))) = [True, False]"
  by (simp add: edited_box_value)
     (simp add: click_def nextCheckState_def setChecked_def queryCheckedButton_def other_checked_def
        toggleParameters_def toggle_body_def enableEditor_def enableUpdateButton_def Let_def)

text \<open>
  C3 as stated fails: the example box has two entries, the first is checked and current
  and its editor is open with nothing changed (update button disabled); a click on that
  first entry leaves it checked and enables the update button while the change counter
  is 0.
\<close>

theorem toggle_enables_unchanged_editor:
  "editor_dialog (radio_buttons (snd edited_box) ! 0) =
     Some \<lparr>editor_widgets = map_of [(''.x'', ParametersTableWidget_init), (''.y'', ParametersTableWidget_init)],
        n_changed = 0, original_parameters = 0, parameters = 2,
        updateButton_enabled = False, updateClicked = 0\<rparr> \<and>
   editor_dialog (radio_buttons (click 0 (snd edited_box)) ! 0) =
     Some \<lparr>editor_widgets = map_of [(''.x'', ParametersTableWidget_init), (''.y'', ParametersTableWidget_init)],
        n_changed = 0, original_parameters = 0, parameters = 2,
        updateButton_enabled = True, updateClicked = 0\<rparr> \<and>
   \<not> (updateButton_enabled
         \<lparr>editor_widgets = map_of [(''.x'', ParametersTableWidget_init), (''.y'', ParametersTableWidget_init)],
          n_changed = 0, original_parameters = 0, parameters = 2,
          updateButton_enabled = True, updateClicked = 0\<rparr> \<longleftrightarrow>
       0 < n_changed
         \<lparr>editor_widgets = map_of [(''.x'', ParametersTableWidget_init), (''.y'', ParametersTableWidget_init)],
          n_changed = 0, original_parameters = 0, parameters = 2,
          updateButton_enabled = True, updateClicked = 0\<rparr>)"
proof -
  have len: "length (radio_buttons (snd edited_box)) = 2"
    by (simp add: edited_box_value)
  have c: "checked (radio_buttons (click 0 (snd edited_box)) ! 0)"
    using arg_cong[OF click_checked_of_two, of "\<lambda>xs. xs ! 0"] len
    by (simp add: click_buttons)
  have "editor_dialog (radio_buttons (click 0 (snd edited_box)) ! 0) =
      map_option (\<lambda>e. e\<lparr>updateButton_enabled := True\<rparr>) (editor_dialog (radio_buttons (snd edited_box) ! 0))"
    using click_editor[of 0 "snd edited_box" 0] len c by simp
  then show ?thesis by (simp add: edited_box_value)
qed

text \<open>
  \<^verbatim>\<open>handleUpdate\<close> sets the counter to 0 and does not call \<^verbatim>\<open>updateDisplay\<close>: after an edit
  and a commit the button is still enabled.
\<close>

lemma commit_leaves_button_enabled:
  "let (h, e) = state_of (run [ParameterChanged ''.x'' 2, UpdateButtonClicked]
                  (ParametersEditor_init heap0 0 [''.x'', ''.y'']))
   in updateButton_enabled e \<and> n_changed e = 0"
  by (simp add: editor_defs)

theorem update_button_enabled_witness:
  "\<exists>s s'. run [ParameterChanged ''.x'' 2] (ParametersEditor_init heap0 0 [''.x'', ''.y'']) = Ok s \<and>
     handleParameterChanged ''.x'' 1 s = Ok s' \<and>
     (updateButton_enabled (snd s') \<longleftrightarrow> 0 < n_changed (snd s')) \<and>
     editor_dialog (radio_buttons (click 1 (snd edited_box)) ! 0) =
           map_option (\<lambda>e. e\<lparr>updateButton_enabled := checked (radio_buttons (click 1 (snd edited_box)) ! 0)\<rparr>)
             (editor_dialog (radio_buttons (snd edited_box) ! 0))"
proof -
  obtain s where s: "run [ParameterChanged ''.x'' 2]
             (ParametersEditor_init heap0 0 [''.x'', ''.y'']) = Ok s"
    using run_total[of "[ParameterChanged ''.x'' 2]" "[''.x'', ''.y'']"
        "ParametersEditor_init heap0 0 [''.x'', ''.y'']"]
    by (auto simp: dom_init)
  have "''.x'' \<in> dom (editor_widgets (snd s))"
    using dom_run[OF s] by (simp add: dom_init)
  then obtain s' where s': "handleParameterChanged ''.x'' (1::int) s = Ok s'"
    using handleParameterChanged_total[of "''.x''" s 1] by auto
  have a: "(0::nat) < next_free heap0" by (simp add: heap0_def)
  have l1: "1 < length (radio_buttons (snd edited_box))"
    and l0: "0 < length (radio_buttons (snd edited_box))"
    by (simp_all add: edited_box_value)
  have r: "(updateButton_enabled (snd s') \<longleftrightarrow> 0 < n_changed (snd s')) \<and>
     editor_dialog (radio_buttons (click 1 (snd edited_box)) ! 0) =
           map_option (\<lambda>e. e\<lparr>updateButton_enabled := checked (radio_buttons (click 1 (snd edited_box)) ! 0)\<rparr>)
             (editor_dialog (radio_buttons (snd edited_box) ! 0))"
    using update_button_enabled[OF a s s' l1 l0] by blast
  from s s' r show ?thesis by blast
qed

text \<open>
  In the same box, a click on the second entry unchecks the first and disables the
  update button of its open editor.
\<close>

lemma click_other_disables_editor:
  "map checked (radio_buttons (click 1 (snd edited_box))) = [False, True] \<and>
   map_option updateButton_enabled (editor_dialog (radio_buttons (click 1 (snd edited_box)) ! 0)) = Some False"
  by (simp add: edited_box_value)
     (simp add: click_def nextCheckState_def setChecked_def queryCheckedButton_def other_checked_def
        toggleParameters_def toggle_body_def enableEditor_def enableUpdateButton_def Let_def)

section \<open>Properties of the mosaic view\<close>

lemma py_round_near: "\<bar>of_int (py_round x) - x\<bar> \<le> 1 / 2"
proof -
  define f where "f = \<lfloor>x\<rfloor>"
  define d where "d = x - of_int f"
  have d0: "0 \<le> d" and d1: "d < 1"
    unfolding d_def f_def by linarith+
  have x: "x = of_int f + d" by (simp add: d_def)
  show ?thesis
    unfolding py_round_def Let_def f_def[symmetric] d_def[symmetric]
    using d0 d1 by (auto simp: x)
qed

text \<open>
  C9, as amended. \<^verbatim>\<open>paint\<close> draws only when the flag \<open>visible\<close> is set; the flag is unset
  in a new cross-hair and \<^verbatim>\<open>setVisible\<close> sets it to its argument. \<^verbatim>\<open>Crosshair.setScale\<close> with
  a non-zero scale keeps the flag and the base size and sets the size to the base size
  divided by the scale, rounded to an integer: within one half of the quotient, not
  equal to it.
\<close>

theorem crosshair_paint_and_scale:
  "(paint c \<noteq> [] \<longrightarrow> visible c) \<and>
   paint Crosshair_init = [] \<and>
   visible (setVisible b c) = b \<and>
   (scale \<noteq> 0 \<longrightarrow>
      (\<exists>c'. Crosshair_setScale scale c = Inr c' \<and>
            visible c' = visible c \<and> ch_size c' = ch_size c \<and>
            r_size c' = of_int (py_round (ch_size c / scale)) \<and>
            \<bar>r_size c' - ch_size c / scale\<bar> \<le> 1 / 2))"
  using py_round_near[of "ch_size c / scale"]
  by (auto simp: paint_def Crosshair_init_def setVisible_def Crosshair_setScale_def)

text \<open>
  C9 as stated fails: at scale 4 the size becomes 4, not the base size divided by the
  scale (15 / 4).
\<close>

theorem setScale_rounds:
  "Crosshair_setScale 4 Crosshair_init = Inr \<lparr>ch_size = 15, r_size = 4, visible = False\<rparr> \<and>
   (4::rat) \<noteq> 15 / 4"
proof -
  have "\<lfloor>(15::rat) / 4\<rfloor> = 3" by (rule floor_unique) simp_all
  then have "py_round (15 / 4) = 4" by (simp add: py_round_def Let_def)
  then show ?thesis by (simp add: Crosshair_setScale_def Crosshair_init_def)
qed

theorem crosshair_paint_and_scale_witness:
  "paint (setVisible True Crosshair_init) \<noteq> [] \<and>
   visible (setVisible True Crosshair_init) \<and>
   (\<exists>c'. Crosshair_setScale 4 (setVisible True Crosshair_init) = Inr c' \<and>
            visible c' = visible (setVisible True Crosshair_init) \<and>
            ch_size c' = ch_size (setVisible True Crosshair_init) \<and>
            r_size c' = of_int (py_round (ch_size (setVisible True Crosshair_init) / 4)) \<and>
            \<bar>r_size c' - ch_size (setVisible True Crosshair_init) / 4\<bar> \<le> 1 / 2)"
  using crosshair_paint_and_scale[of "setVisible True Crosshair_init" True 4]
  by (simp add: paint_def setVisible_def Crosshair_init_def)

text \<open>One wheel step up from the initial view: the scale is multiplied and emitted.\<close>

lemma wheelEvent_scale:
  "wheelEvent (0, 120) MosaicView_init =
     \<lparr>view_scale = 6 / 5, zoom_in = 6 / 5, zoom_out = 5 / 6, scaleChange = [6 / 5]\<rparr>"
  by (simp add: wheelEvent_def MosaicView_init_def MosaicView_setScale_def Let_def)

text \<open>Extensions, sorting and drops on examples.\<close>

lemma splitext_examples:
  "splitext ''/d/a.csv'' = (''/d/a'', ''.csv'')"
  "splitext ''/d.x/b'' = (''/d.x/b'', [])"
  "splitext ''/d/.bashrc'' = (''/d/.bashrc'', [])"
  "splitext ''a.tar.gz'' = (''a.tar'', ''.gz'')"
  by (simp_all add: splitext_def rfind_def Let_def)

lemma sort_example: "sort [''/d/b.txt'', ''/d/a.csv''] = [''/d/a.csv'', ''/d/b.txt'']"
  by simp

text \<open>
  C8. The code at the failing input: two files with different extensions. The
  handler does not get as far as the notice: the lookup of \<^verbatim>\<open>QMessageBox\<close> in \<^verbatim>\<open>QtGui\<close>
  raises \<^verbatim>\<open>AttributeError\<close>. No drop event is emitted.
\<close>

theorem dropEvent_mixed_extensions:
  "dropEvent [''/d/b.txt'', ''/d/a.csv''] = Inl AttributeError"
  by (simp add: dropEvent_def splitext_def rfind_def Let_def module_attr_def PyQt5_provides_def)

lemma dropEvent_example_same:
  "dropEvent [''/d/b.csv'', ''/d/a.csv''] = Inr [DropEventEmitted [''/d/a.csv'', ''/d/b.csv'']]"
  by (simp add: dropEvent_def splitext_def rfind_def Let_def module_attr_def PyQt5_provides_def)

text \<open>
  The two cases of \<^verbatim>\<open>dropEvent\<close> in general: with one extension throughout, exactly one
  event with the sorted file names; with two different extensions, the exception and
  no event.
\<close>

lemma dropEvent_same_extension:
  assumes "urls \<noteq> []" and "\<forall>f\<in>set urls. snd (splitext f) = ext"
  shows "dropEvent urls = Inr [DropEventEmitted (sort urls)]"
proof -
  have ne: "sort urls \<noteq> []" using assms(1) by (metis length_0_conv length_sort)
  then obtain first others where s: "sort urls = first # others" by (cases "sort urls") auto
  have all: "\<forall>f\<in>set (sort urls). snd (splitext f) = ext" using assms(2) by simp
  then have "snd (splitext first) = ext" unfolding s by simp
  with all show ?thesis
    unfolding dropEvent_def Let_def s[symmetric]
    by (simp add: s list_all_iff)
qed

lemma dropEvent_different_extensions:
  assumes "f \<in> set urls" and "g \<in> set urls" and "snd (splitext f) \<noteq> snd (splitext g)"
  shows "dropEvent urls = Inl AttributeError"
proof -
  from assms(1) have "sort urls \<noteq> []" by (metis empty_iff list.set(1) set_sort)
  then obtain first others where s: "sort urls = first # others" by (cases "sort urls") auto
  have "\<exists>x\<in>set (sort urls). snd (splitext x) \<noteq> snd (splitext first)"
    using assms by (metis set_sort)
  then have "\<not> list_all (\<lambda>x. x) (map (\<lambda>filename. snd (splitext filename) = snd (splitext first)) (sort urls))"
    by (auto simp: list_all_iff)
  then show ?thesis
    unfolding dropEvent_def Let_def s[symmetric]
    by (simp add: s module_attr_def PyQt5_provides_def)
qed

end
